theory Spec2Isabelle
  imports Main
begin

section \<open>Inverted index\<close>

text \<open>
  The index of \<^verbatim>\<open>main\<close> is a dict from term to a dict from URL to the list of
  positions. A dict is a partial map; positions are the non-negative integers that
  \<^verbatim>\<open>enumerate\<close> hands out, counted from 0.
\<close>

type_synonym url = string
type_synonym token = string
type_synonym postings = "url \<rightharpoonup> nat list"
type_synonym index = "token \<rightharpoonup> postings"

text \<open>
  One round of the loop of lines 133-135:
  \<^verbatim>\<open>postings = index.setdefault(term, {}); postings.setdefault(url, []).append(pos)\<close>
\<close>

definition add_occurrence :: "url \<Rightarrow> nat \<times> token \<Rightarrow> index \<Rightarrow> index" where
  "add_occurrence u pt idx =
     (let pos = fst pt; t = snd pt;
          postings = (case idx t of None \<Rightarrow> Map.empty | Some p \<Rightarrow> p);
          plist = (case postings u of None \<Rightarrow> [] | Some l \<Rightarrow> l)
      in idx(t \<mapsto> postings(u \<mapsto> plist @ [pos])))"

text \<open>\<^verbatim>\<open>for pos, term in enumerate(tokens): ...\<close>\<close>

definition index_document :: "index \<Rightarrow> url \<Rightarrow> token list \<Rightarrow> index" where
  "index_document idx u tokens = fold (add_occurrence u) (enumerate 0 tokens) idx"

text \<open>Reading the index: \<^verbatim>\<open>index[t][u]\<close>, with \<open>None\<close> where a key is missing.\<close>

definition posting :: "index \<Rightarrow> token \<Rightarrow> url \<Rightarrow> nat list option" where
  "posting idx t u = (case idx t of None \<Rightarrow> None | Some p \<Rightarrow> p u)"

text \<open>The positions of a term in a token list, counted from \<open>n\<close>, in increasing order.\<close>

fun positions_from :: "nat \<Rightarrow> token \<Rightarrow> token list \<Rightarrow> nat list" where
  "positions_from n t [] = []"
| "positions_from n t (x # xs) =
     (if x = t then n # positions_from (Suc n) t xs else positions_from (Suc n) t xs)"

section \<open>Strings\<close>

text \<open>
  Python strings are modelled as \<open>string\<close>. The character classes below are those of
  the ASCII range, where \<^verbatim>\<open>str.lower\<close>, \<^verbatim>\<open>str.isalpha\<close> and the \<^verbatim>\<open>\w\<close> of
  \<^verbatim>\<open>re\<close> are given by the tables written out here. The model is one of ASCII text:
  Python lowers and counts as word characters the letters and digits of all of Unicode,
  while here a character outside ASCII is left as it is by \<open>lower\<close> and separates
  words. Every text that is tokenized below is ASCII.
\<close>

definition ascii_upper :: string where
  "ascii_upper = ''ABCDEFGHIJKLMNOPQRSTUVWXYZ''"

definition ascii_lower :: string where
  "ascii_lower = ''abcdefghijklmnopqrstuvwxyz''"

definition digits :: string where
  "digits = ''0123456789''"

definition lower_char :: "char \<Rightarrow> char" where
  "lower_char c = (case map_of (zip ascii_upper ascii_lower) c of None \<Rightarrow> c | Some l \<Rightarrow> l)"

text \<open>\<^verbatim>\<open>s.lower()\<close>\<close>

definition lower :: "string \<Rightarrow> string" where
  "lower s = map lower_char s"

text \<open>The class \<^verbatim>\<open>\w\<close>: letters, digits and the underscore.\<close>

definition is_word :: "char \<Rightarrow> bool" where
  "is_word c = (c \<in> set ascii_lower \<or> c \<in> set ascii_upper \<or> c \<in> set digits \<or> c = CHR ''_'')"

text \<open>\<^verbatim>\<open>s.endswith(c)\<close> for a one-character suffix, \<^verbatim>\<open>s.startswith(p)\<close>, \<^verbatim>\<open>sub in s\<close>.\<close>

definition endswith :: "string \<Rightarrow> char \<Rightarrow> bool" where
  "endswith s c = (s \<noteq> [] \<and> last s = c)"

definition startswith :: "string \<Rightarrow> string \<Rightarrow> bool" where
  "startswith s p = (take (length p) s = p)"

fun contains :: "string \<Rightarrow> string \<Rightarrow> bool" where
  "contains [] sub = (sub = [])"
| "contains (c # cs) sub = (startswith (c # cs) sub \<or> contains cs sub)"

text \<open>\<^verbatim>\<open>s.rfind(c)\<close>: the index of the last \<open>c\<close>, or \<open>-1\<close>.\<close>

definition rfind :: "char \<Rightarrow> string \<Rightarrow> int" where
  "rfind c s =
     (if c \<in> set s then int (length s) - 1 - int (length (takeWhile (\<lambda>x. x \<noteq> c) (rev s)))
      else - 1)"

text \<open>
  \<^verbatim>\<open>re.split(P+, s)\<close> for a character class \<open>P\<close>: the pieces between the maximal runs
  of separator characters, with an empty piece where the string starts or ends with a
  separator.
\<close>

fun split_runs :: "(char \<Rightarrow> bool) \<Rightarrow> string \<Rightarrow> string list" where
  "split_runs sep [] = [[]]"
| "split_runs sep (c # cs) =
     (if sep c
      then (case cs of
              [] \<Rightarrow> [[], []]
            | d # _ \<Rightarrow> if sep d then split_runs sep cs else [] # split_runs sep cs)
      else (case split_runs sep cs of
              [] \<Rightarrow> [[c]]
            | p # ps \<Rightarrow> (c # p) # ps))"

text \<open>\<^verbatim>\<open>' '.join(chunks)\<close>\<close>

fun join_space :: "string list \<Rightarrow> string" where
  "join_space [] = []"
| "join_space [x] = x"
| "join_space (x # y # ys) = x @ '' '' @ join_space (y # ys)"

section \<open>Tokenizer\<close>

text \<open>\<^verbatim>\<open>[tok.lower() for tok in re.split(r'\W+', text) if tok]\<close>\<close>

definition tokenize :: "string \<Rightarrow> token list" where
  "tokenize text = map lower (filter (\<lambda>tok. tok \<noteq> []) (split_runs (\<lambda>c. \<not> is_word c) text))"

section \<open>URLs\<close>

text \<open>
  \<^verbatim>\<open>urllib.parse.urlparse\<close>, for the two components the program reads. The model
  follows the library's splitting: a scheme up to the first colon when the text before
  it is made of scheme characters and starts with a letter; after \<^verbatim>\<open>//\<close> a network
  location up to the next \<^verbatim>\<open>/\<close>, \<^verbatim>\<open>?\<close> or \<^verbatim>\<open>#\<close>; then the fragment, the query and
  the parameters of the last path segment are cut off the path. Two things the library
  does are left out: it first strips leading blanks and control characters and deletes
  every tab, carriage return and line feed, and it raises \<^verbatim>\<open>ValueError\<close> on a
  network location with an unmatched bracket. The model is one of URLs without such
  characters and brackets; in the crawl, a link that makes the library raise is the case
  \<open>None\<close> of \<open>urljoin\<close>.
\<close>

record parsed_url =
  scheme :: string
  netloc :: string
  path :: string

definition scheme_chars :: string where
  "scheme_chars = ascii_lower @ ascii_upper @ digits @ ''+-.''"

definition uses_params :: "string list" where
  "uses_params = ['''', ''ftp'', ''hdl'', ''prospero'', ''http'', ''imap'', ''https'',
                  ''shttp'', ''rtsp'', ''rtspu'', ''sip'', ''sips'', ''mms'', ''sftp'', ''tel'']"

definition splitparams :: "string \<Rightarrow> string" where
  "splitparams p =
     (if CHR ''/'' \<in> set p
      then (let k = nat (rfind CHR ''/'' p)
            in take k p @ takeWhile (\<lambda>c. c \<noteq> CHR '';'') (drop k p))
      else takeWhile (\<lambda>c. c \<noteq> CHR '';'') p)"

definition urlparse :: "string \<Rightarrow> parsed_url" where
  "urlparse u =
     (let pre = takeWhile (\<lambda>c. c \<noteq> CHR '':'') u;
          has_scheme = (CHR '':'' \<in> set u \<and> pre \<noteq> []
                        \<and> hd pre \<in> set (ascii_lower @ ascii_upper)
                        \<and> list_all (\<lambda>c. c \<in> set scheme_chars) pre);
          sch = (if has_scheme then lower pre else []);
          r0 = (if has_scheme then drop (length pre + 1) u else u);
          has_netloc = (take 2 r0 = ''//'');
          stop = (\<lambda>c. c = CHR ''/'' \<or> c = CHR ''?'' \<or> c = CHR ''#'');
          loc = (if has_netloc then takeWhile (\<lambda>c. \<not> stop c) (drop 2 r0) else []);
          r1 = (if has_netloc then dropWhile (\<lambda>c. \<not> stop c) (drop 2 r0) else r0);
          r2 = takeWhile (\<lambda>c. c \<noteq> CHR ''#'') r1;
          r3 = takeWhile (\<lambda>c. c \<noteq> CHR ''?'') r2;
          p = (if sch \<in> set uses_params \<and> CHR '';'' \<in> set r3 then splitparams r3 else r3)
      in \<lparr>scheme = sch, netloc = loc, path = p\<rparr>)"

text \<open>
  \<^verbatim>\<open>os.path.splitext\<close> (POSIX): the extension starts at the last dot of the last
  path segment, unless that segment has only dots before it.
\<close>

definition splitext :: "string \<Rightarrow> string \<times> string" where
  "splitext p =
     (let sepIndex = rfind CHR ''/'' p; dotIndex = rfind CHR ''.'' p
      in if dotIndex > sepIndex
            \<and> list_ex (\<lambda>i. p ! i \<noteq> CHR ''.'') [nat (sepIndex + 1)..<nat dotIndex]
         then (take (nat dotIndex) p, drop (nat dotIndex) p)
         else (p, []))"

text \<open>\<^verbatim>\<open>is_likely_html\<close> of \<^verbatim>\<open>indexer_script.py\<close>, lines 33-41.\<close>

definition is_likely_html :: "url \<Rightarrow> bool" where
  "is_likely_html u =
     (let p = path (urlparse u); ext = snd (splitext p)
      in if ext \<in> {'''', ''.html'', ''.htm''} then True
         else if endswith p CHR ''/'' then True
         else False)"

text \<open>\<^verbatim>\<open>is_likely_html\<close> of \<^verbatim>\<open>indexer_script_prefixed.py\<close>: one condition.\<close>

definition is_likely_html_prefixed :: "url \<Rightarrow> bool" where
  "is_likely_html_prefixed u =
     (let p = path (urlparse u); ext = snd (splitext p)
      in if ext \<in> {'''', ''.html'', ''.htm''} \<or> endswith p CHR ''/'' then True else False)"

text \<open>
  The prefix directory of \<^verbatim>\<open>indexer_script_prefixed.py\<close>, lines 32-36;
  \<^verbatim>\<open>path.rsplit('/', 1)[0]\<close> is the part before the last slash, or the whole
  string when it has no slash.
\<close>

definition rsplit_head :: "char \<Rightarrow> string \<Rightarrow> string" where
  "rsplit_head c s =
     (if c \<in> set s then rev (tl (dropWhile (\<lambda>x. x \<noteq> c) (rev s))) else s)"

definition prefix_dir :: "string \<Rightarrow> string" where
  "prefix_dir p = (if endswith p CHR ''/'' then p else rsplit_head CHR ''/'' p @ ''/'')"

definition PREFIX_DIR :: "url \<Rightarrow> string" where
  "PREFIX_DIR start_url = prefix_dir (path (urlparse start_url))"

definition DOMAIN :: "url \<Rightarrow> string" where
  "DOMAIN start_url = netloc (urlparse start_url)"

section \<open>The tag stream\<close>

text \<open>
  Both extractors are subclasses of \<^verbatim>\<open>html.parser.HTMLParser\<close>: the library reads
  the page and calls \<^verbatim>\<open>handle_starttag(tag, attrs)\<close>, \<^verbatim>\<open>handle_endtag(tag)\<close> and
  \<^verbatim>\<open>handle_data(data)\<close> in document order. An attribute is a pair of a name and a
  value, the value being \<^verbatim>\<open>None\<close> for an attribute written without one; a name that
  occurs twice in a tag is delivered twice.
\<close>

datatype html_event =
    StartTag string "(string \<times> string option) list"
  | EndTag string
  | Data string

subsection \<open>The library's reading of plain markup\<close>

text \<open>
  \<open>html_events\<close> is the stream the library delivers for plain markup: text, end tags,
  and start tags whose attributes are separated by white space and written
  \<^verbatim>\<open>name\<close>, \<^verbatim>\<open>name=value\<close> or with the value in quotes. Tag and attribute names
  arrive in lower case. Outside this fragment, where the library does something else,
  are: comments, declarations and marked sections (on some of which it raises),
  character references and text with an ampersand near its end, a \<^verbatim>\<open><\<close> that is not
  followed by a letter or a slash (which it takes as text), blanks around the \<^verbatim>\<open>=\<close>
  of an attribute, quoted values holding white space or \<^verbatim>\<open>>\<close>, and the raw text
  mode of script and style elements. The crawl below takes the parser as a parameter;
  this function gives the example pages, which are all inside the fragment, their tag
  stream.
\<close>

definition is_space :: "char \<Rightarrow> bool" where
  "is_space c = (c \<in> {CHR '' '', CHR 0x09, CHR 0x0A, CHR 0x0C, CHR 0x0D})"

definition unquote :: "string \<Rightarrow> string" where
  "unquote v =
     (if 2 \<le> length v \<and> hd v = last v \<and> hd v \<in> {CHR 0x22, CHR 0x27}
      then butlast (tl v) else v)"

definition parse_attr :: "string \<Rightarrow> string \<times> string option" where
  "parse_attr w =
     (let k = takeWhile (\<lambda>c. c \<noteq> CHR ''='') w; r = dropWhile (\<lambda>c. c \<noteq> CHR ''='') w
      in (lower k, if r = [] then None else Some (unquote (tl r))))"

definition tag_event :: "string \<Rightarrow> html_event" where
  "tag_event content =
     (if content \<noteq> [] \<and> hd content = CHR ''/''
      then EndTag (lower (takeWhile (\<lambda>c. \<not> is_space c) (tl content)))
      else (case filter (\<lambda>w. w \<noteq> []) (split_runs is_space content) of
              [] \<Rightarrow> Data (''<'' @ content @ ''>'')
            | name # ws \<Rightarrow> StartTag (lower name) (map parse_attr ws)))"

definition data_event :: "string \<Rightarrow> html_event list" where
  "data_event acc = (if acc = [] then [] else [Data acc])"

fun scan_text :: "string \<Rightarrow> string \<Rightarrow> html_event list"
  and scan_tag :: "string \<Rightarrow> string \<Rightarrow> html_event list" where
  "scan_text acc [] = data_event acc"
| "scan_text acc (c # cs) =
     (if c = CHR ''<'' then data_event acc @ scan_tag [] cs else scan_text (acc @ [c]) cs)"
| "scan_tag acc [] = []"
| "scan_tag acc (c # cs) =
     (if c = CHR ''>'' then tag_event acc # scan_text [] cs else scan_tag (acc @ [c]) cs)"

definition html_events :: "string \<Rightarrow> html_event list" where
  "html_events html = scan_text [] html"

section \<open>Text Extractor\<close>

text \<open>The class \<^verbatim>\<open>TextExtractor\<close>, lines 44-70: its three fields and its handlers.\<close>

record text_extractor =
  in_body :: bool
  skip :: bool
  chunks :: "string list"

definition TextExtractor :: text_extractor where
  "TextExtractor = \<lparr>in_body = False, skip = False, chunks = []\<rparr>"

definition te_handle_starttag :: "string \<Rightarrow> text_extractor \<Rightarrow> text_extractor" where
  "te_handle_starttag tag te =
     (let tag = lower tag
      in if tag = ''body'' then te\<lparr>in_body := True\<rparr>
         else if in_body te \<and> tag \<in> {''script'', ''style'', ''head''} then te\<lparr>skip := True\<rparr>
         else te)"

definition te_handle_endtag :: "string \<Rightarrow> text_extractor \<Rightarrow> text_extractor" where
  "te_handle_endtag tag te =
     (let tag = lower tag
      in if tag = ''body'' then te\<lparr>in_body := False\<rparr>
         else if tag \<in> {''script'', ''style'', ''head''} then te\<lparr>skip := False\<rparr>
         else te)"

definition te_handle_data :: "string \<Rightarrow> text_extractor \<Rightarrow> text_extractor" where
  "te_handle_data d te =
     (if in_body te \<and> \<not> skip te then te\<lparr>chunks := chunks te @ [d]\<rparr> else te)"

fun te_event :: "html_event \<Rightarrow> text_extractor \<Rightarrow> text_extractor" where
  "te_event (StartTag tag attrs) te = te_handle_starttag tag te"
| "te_event (EndTag tag) te = te_handle_endtag tag te"
| "te_event (Data d) te = te_handle_data d te"

text \<open>\<^verbatim>\<open>te = TextExtractor(); te.feed(html)\<close> on a page with the given tag stream.\<close>

definition te_feed :: "html_event list \<Rightarrow> text_extractor" where
  "te_feed evs = fold te_event evs TextExtractor"

text \<open>\<^verbatim>\<open>te.text()\<close>\<close>

definition te_text :: "text_extractor \<Rightarrow> string" where
  "te_text te = join_space (chunks te)"

section \<open>Link Extractor\<close>

text \<open>
  The class \<^verbatim>\<open>LinkExtractor\<close>, lines 72-81. Its one field is the list of links; the
  inner loop runs over all attributes of the tag and has no \<^verbatim>\<open>break\<close>. The test
  \<^verbatim>\<open>and v\<close> is false for \<^verbatim>\<open>None\<close> and for the empty string.
\<close>

definition le_attr :: "string \<times> string option \<Rightarrow> string list \<Rightarrow> string list" where
  "le_attr kv links =
     (case snd kv of
        None \<Rightarrow> links
      | Some v \<Rightarrow> if lower (fst kv) = ''href'' \<and> v \<noteq> [] then links @ [v] else links)"

definition le_handle_starttag ::
  "string \<Rightarrow> (string \<times> string option) list \<Rightarrow> string list \<Rightarrow> string list" where
  "le_handle_starttag tag attrs links =
     (if lower tag = ''a'' then fold le_attr attrs links else links)"

fun le_event :: "html_event \<Rightarrow> string list \<Rightarrow> string list" where
  "le_event (StartTag tag attrs) links = le_handle_starttag tag attrs links"
| "le_event (EndTag tag) links = links"
| "le_event (Data d) links = links"

text \<open>\<^verbatim>\<open>le = LinkExtractor(); le.feed(html); le.links\<close>\<close>

definition le_feed :: "html_event list \<Rightarrow> string list" where
  "le_feed evs = fold le_event evs []"

section \<open>The crawl\<close>

text \<open>
  What the crawl calls outside the program is a parameter of the model, and an
  exception is the value \<open>None\<close>:
  \<^item> \<open>fetch\<close>: \<^verbatim>\<open>requests.get(url, timeout=10)\<close> followed by
    \<^verbatim>\<open>r.raise_for_status()\<close>; \<open>None\<close> when either raises, and otherwise the
    response's \<^verbatim>\<open>Content-Type\<close> header, if it has one, and its text;
  \<^item> \<open>feed\<close>: the library parser run over a page; \<open>None\<close> when it raises;
  \<^item> \<open>urljoin\<close>: \<^verbatim>\<open>urllib.parse.urljoin(base, link)\<close>; \<open>None\<close> when it raises, as
    it does with \<^verbatim>\<open>ValueError\<close> on a link it cannot parse;
  \<^item> \<open>sink_ok\<close>: whether \<^verbatim>\<open>flush_index\<close>, called when the page counter has the
    given value, writes the file without raising.
\<close>

record response =
  content_type_header :: "string option"
  body_text :: string

record env =
  fetch :: "url \<Rightarrow> response option"
  feed :: "string \<Rightarrow> html_event list option"
  urljoin :: "url \<Rightarrow> string \<Rightarrow> url option"
  sink_ok :: "nat \<Rightarrow> bool"

text \<open>
  The four variables of \<^verbatim>\<open>main\<close>, and two logs of what the run does to the outside:
  the URLs handed to \<^verbatim>\<open>requests.get\<close> and the indexes written by \<^verbatim>\<open>flush_index\<close>,
  both in order.
\<close>

record crawl_state =
  to_crawl :: "url list"
  seen :: "url set"
  index :: index
  page_count :: nat
  fetched :: "url list"
  flushed :: "index list"

definition FLUSH_EVERY :: nat where
  "FLUSH_EVERY = 50"

text \<open>The condition of lines 143-145 on a resolved link.\<close>

definition link_wanted :: "string \<Rightarrow> url set \<Rightarrow> url \<Rightarrow> bool" where
  "link_wanted domain sn abs_link =
     (netloc (urlparse abs_link) = domain \<and> abs_link \<notin> sn \<and> is_likely_html abs_link)"

text \<open>
  The loop of lines 140-146 over \<^verbatim>\<open>le.links\<close>. It appends to the queue and does not
  touch the seen set. The result is the queue and whether the loop ran to its end; when
  \<^verbatim>\<open>urljoin\<close> raises, the links appended before stay in the queue.
\<close>

fun enqueue_links ::
  "env \<Rightarrow> string \<Rightarrow> url \<Rightarrow> url set \<Rightarrow> string list \<Rightarrow> url list \<Rightarrow> url list \<times> bool" where
  "enqueue_links e domain u sn [] q = (q, True)"
| "enqueue_links e domain u sn (href # hrefs) q =
     (let candidate = takeWhile (\<lambda>c. c \<noteq> CHR ''#'') href
      in case urljoin e u candidate of
           None \<Rightarrow> (q, False)
         | Some abs_link \<Rightarrow>
             enqueue_links e domain u sn hrefs
               (if link_wanted domain sn abs_link then q @ [abs_link] else q))"

text \<open>
  The \<^verbatim>\<open>try\<close> block of lines 126-155 for the page \<open>html\<close> fetched at \<open>u\<close>. Every
  exception in it is caught by line 153 and the loop goes on, so what was changed
  before the exception stays changed.
\<close>

definition process_document :: "env \<Rightarrow> string \<Rightarrow> url \<Rightarrow> string \<Rightarrow> crawl_state \<Rightarrow> crawl_state" where
  "process_document e domain u html s =
     (case feed e html of
        None \<Rightarrow> s
      | Some evs \<Rightarrow>
          (let tokens = tokenize (te_text (te_feed evs));
               s1 = s\<lparr>index := index_document (index s) u tokens\<rparr>
           in case feed e html of
                None \<Rightarrow> s1
              | Some evs' \<Rightarrow>
                  (case enqueue_links e domain u (seen s1) (le_feed evs') (to_crawl s1) of
                     (q, False) \<Rightarrow> s1\<lparr>to_crawl := q\<rparr>
                   | (q, True) \<Rightarrow>
                       (let s2 = s1\<lparr>to_crawl := q, page_count := page_count s1 + 1\<rparr>
                        in if page_count s2 mod FLUSH_EVERY = 0
                           then (if sink_ok e (page_count s2)
                                 then s2\<lparr>flushed := flushed s2 @ [index s2]\<rparr>
                                 else s2)
                           else s2))))"

text \<open>
  One round of \<^verbatim>\<open>while to_crawl\<close>, lines 99-155. With an empty queue the loop has
  ended and the state stays as it is.
\<close>

definition step :: "env \<Rightarrow> string \<Rightarrow> crawl_state \<Rightarrow> crawl_state" where
  "step e domain s =
     (case to_crawl s of
        [] \<Rightarrow> s
      | u # rest \<Rightarrow>
          (let s0 = s\<lparr>to_crawl := rest\<rparr>
           in if u \<in> seen s0 then s0
              else (let s1 = s0\<lparr>seen := insert u (seen s0)\<rparr>
                    in if \<not> is_likely_html u then s1
                       else (let s2 = s1\<lparr>fetched := fetched s1 @ [u]\<rparr>
                             in case fetch e u of
                                  None \<Rightarrow> s2
                                | Some r \<Rightarrow>
                                    (let content_type =
                                           (case content_type_header r of
                                              None \<Rightarrow> [] | Some v \<Rightarrow> v)
                                     in if \<not> contains content_type ''text/html'' then s2
                                        else process_document e domain u (body_text r) s2)))))"

text \<open>The state at the start of \<^verbatim>\<open>main\<close>, and the state after \<open>n\<close> rounds of its loop.\<close>

definition init :: "url \<Rightarrow> crawl_state" where
  "init start_url =
     \<lparr>to_crawl = [start_url], seen = {}, index = Map.empty, page_count = 0,
      fetched = [], flushed = []\<rparr>"

fun run :: "env \<Rightarrow> string \<Rightarrow> nat \<Rightarrow> crawl_state \<Rightarrow> crawl_state" where
  "run e domain 0 s = s"
| "run e domain (Suc n) s = run e domain n (step e domain s)"

section \<open>The prefix-scoped variant\<close>

text \<open>
  \<^verbatim>\<open>indexer_script_prefixed.py\<close>, lines 148-157: the same loop over the links, with
  the path of the resolved link tested against the prefix directory.
\<close>

definition link_wanted_prefixed :: "string \<Rightarrow> string \<Rightarrow> url set \<Rightarrow> url \<Rightarrow> bool" where
  "link_wanted_prefixed domain pre sn abs_link =
     (let pl = urlparse abs_link
      in netloc pl = domain \<and> abs_link \<notin> sn \<and> startswith (path pl) pre
         \<and> is_likely_html_prefixed abs_link)"

fun enqueue_links_prefixed ::
  "env \<Rightarrow> string \<Rightarrow> string \<Rightarrow> url \<Rightarrow> url set \<Rightarrow> string list \<Rightarrow> url list \<Rightarrow> url list \<times> bool" where
  "enqueue_links_prefixed e domain pre u sn [] q = (q, True)"
| "enqueue_links_prefixed e domain pre u sn (href # hrefs) q =
     (let link = takeWhile (\<lambda>c. c \<noteq> CHR ''#'') href
      in case urljoin e u link of
           None \<Rightarrow> (q, False)
         | Some abs_link \<Rightarrow>
             enqueue_links_prefixed e domain pre u sn hrefs
               (if link_wanted_prefixed domain pre sn abs_link then q @ [abs_link] else q))"

section \<open>A small site for the examples\<close>

text \<open>
  Five pages under \<^verbatim>\<open>https://ex.com/\<close>. The home page links twice to the page a
  (once with a fragment), to a JSON resource c, to a page d that cannot be fetched and
  to a page whose second link is \<^verbatim>\<open>http://[\<close>, on which \<^verbatim>\<open>urljoin\<close> raises
  \<^verbatim>\<open>ValueError\<close>. All other links are absolute URLs, which \<^verbatim>\<open>urljoin\<close> returns as
  they are.
\<close>

definition site_pages :: "url \<Rightarrow> response option" where
  "site_pages u =
     (if u = ''https://ex.com/'' then
        Some \<lparr>content_type_header = Some ''text/html; charset=utf-8'',
              body_text = ''<body>Home <a href=https://ex.com/a.html>one</a> <a href=https://ex.com/a.html#top>two</a> <a href=https://ex.com/c>data</a> <a href=https://ex.com/d.html>gone</a> <a href=https://ex.com/bad.html>bad</a></body>''\<rparr>
      else if u = ''https://ex.com/a.html'' then
        Some \<lparr>content_type_header = Some ''text/html'', body_text = ''<body>Page a</body>''\<rparr>
      else if u = ''https://ex.com/c'' then
        Some \<lparr>content_type_header = Some ''application/json'', body_text = ''{}''\<rparr>
      else if u = ''https://ex.com/bad.html'' then
        Some \<lparr>content_type_header = Some ''text/html'',
              body_text = ''<body>oops <a href=https://ex.com/e.html>e</a> <a href=http://[>x</a></body>''\<rparr>
      else None)"

definition site :: env where
  "site =
     \<lparr>fetch = site_pages,
      feed = (\<lambda>html. Some (html_events html)),
      urljoin = (\<lambda>base link. if link = ''http://['' then None else Some link),
      sink_ok = (\<lambda>n. True)\<rparr>"

text \<open>
  A second site: its home page links to \<^verbatim>\<open>https://ex.com/\<close>, and the crawl is
  started at \<^verbatim>\<open>https://ex.com/#top\<close>. A fragment is not sent to the server, so both
  URLs give the home page.
\<close>

definition frag_pages :: "url \<Rightarrow> response option" where
  "frag_pages u =
     (if u = ''https://ex.com/#top'' \<or> u = ''https://ex.com/'' then
        Some \<lparr>content_type_header = Some ''text/html'',
              body_text = ''<body>Home <a href=https://ex.com/>home</a></body>''\<rparr>
      else None)"

definition frag_site :: env where
  "frag_site =
     \<lparr>fetch = frag_pages,
      feed = (\<lambda>html. Some (html_events html)),
      urljoin = (\<lambda>base link. Some link),
      sink_ok = (\<lambda>n. True)\<rparr>"

section \<open>Facts about one indexing pass\<close>

lemma posting_add_occurrence:
  "posting (add_occurrence u (n, x) idx) t v =
     (if x = t \<and> v = u
      then Some ((case posting idx t u of None \<Rightarrow> [] | Some l \<Rightarrow> l) @ [n])
      else posting idx t v)"
  by (simp add: add_occurrence_def posting_def Let_def split: option.splits)


lemma posting_fold_absent:
  "t \<notin> set ts \<Longrightarrow> posting (fold (add_occurrence u) (enumerate n ts) idx) t v = posting idx t v"
  by (induction ts arbitrary: n idx) (auto simp: posting_add_occurrence)

lemma posting_fold_present:
  "t \<in> set ts \<Longrightarrow>
   posting (fold (add_occurrence u) (enumerate n ts) idx) t u =
     Some ((case posting idx t u of None \<Rightarrow> [] | Some l \<Rightarrow> l) @ positions_from n t ts)"
proof (induction ts arbitrary: n idx)
  case Nil
  then show ?case by simp
next
  case (Cons x xs)
  show ?case
  proof (cases "t \<in> set xs")
    case True
    then show ?thesis
      using Cons.IH [of "Suc n" "add_occurrence u (n, x) idx"]
      by (simp add: posting_add_occurrence)
  next
    case False
    with Cons.prems have "x = t" by simp
    moreover from False have "positions_from (Suc n) t xs = []"
      by (induction xs arbitrary: n) auto
    ultimately show ?thesis
      using False by (simp add: posting_fold_absent posting_add_occurrence)
  qed
qed

lemma positions_from_filter:
  "positions_from n t ts = filter (\<lambda>i. ts ! (i - n) = t) [n..<n + length ts]"
proof (induction ts arbitrary: n)
  case Nil
  then show ?case by simp
next
  case (Cons x xs)
  define r where "r = [Suc n..<Suc n + length xs]"
  have split: "[n..<n + length (x # xs)] = n # r"
    unfolding r_def by (subst upt_rec) simp
  have same: "filter (\<lambda>i. (x # xs) ! (i - n) = t) r = filter (\<lambda>i. xs ! (i - Suc n) = t) r"
    unfolding r_def by (rule filter_cong) (auto simp: nth_Cons')
  have ih: "positions_from (Suc n) t xs = filter (\<lambda>i. xs ! (i - Suc n) = t) r"
    unfolding r_def by (rule Cons.IH)
  show ?case
    unfolding split using same by (auto simp: ih)
qed

lemma positions_from_lower: "i \<in> set (positions_from n t ts) \<Longrightarrow> n \<le> i"
  by (induction ts arbitrary: n) (auto split: if_splits dest: Suc_leD)

lemma positions_from_increasing: "sorted_wrt (<) (positions_from n t ts)"
proof (induction ts arbitrary: n)
  case Nil
  then show ?case by simp
next
  case (Cons x xs)
  have "\<forall>i \<in> set (positions_from (Suc n) t xs). n < i"
    using positions_from_lower [of _ "Suc n" t xs] by (auto dest: Suc_le_lessD)
  then show ?case using Cons.IH [of "Suc n"] by simp
qed


lemma posting_index_document:
  "posting (index_document idx u ts) t u =
     (if t \<in> set ts
      then Some ((case posting idx t u of None \<Rightarrow> [] | Some l \<Rightarrow> l)
                 @ filter (\<lambda>i. ts ! i = t) [0..<length ts])
      else posting idx t u)"
  using posting_fold_present [of t ts u 0 idx] posting_fold_absent [of t ts u 0 idx u]
    positions_from_filter [of 0 t ts]
  by (simp add: index_document_def)


lemma posting_empty: "posting Map.empty t u = None"
  by (simp add: posting_def)

lemma positions_strictly_increasing:
  "sorted_wrt (<) (filter (\<lambda>i. ts ! i = t) [0..<length (ts :: token list)])"
  using positions_from_increasing [of 0 t ts] positions_from_filter [of 0 t ts] by simp

section \<open>Claims about the index\<close>

text \<open>
  C1. A document is indexed at a URL \<open>u\<close> that has no posting in the index yet, and its
  tokenized text is \<open>ts\<close>. After the pass the posting of a term \<open>t\<close> at \<open>u\<close> is the list
  of all positions \<open>i\<close>, counted from 0, with \<open>ts ! i = t\<close>; it exists exactly for the
  terms of the document and is strictly increasing. For the tokens a, b, a the posting of
  a is 0, 2 and the posting of b is 1.
\<close>

theorem C1_postings_of_fresh_url:
  assumes "\<forall>t. posting idx t u = None"
  shows "posting (index_document idx u ts) t u =
           (if t \<in> set ts then Some (filter (\<lambda>i. ts ! i = t) [0..<length ts]) else None)
         \<and> sorted_wrt (<) (filter (\<lambda>i. ts ! i = t) [0..<length ts])
         \<and> posting (index_document idx u [''a'', ''b'', ''a'']) ''a'' u = Some [0, 2]
         \<and> posting (index_document idx u [''a'', ''b'', ''a'']) ''b'' u = Some [1]"
proof -
  have fresh: "posting idx x u = None" for x
    using assms by simp
  have general: "posting (index_document idx u ys) x u =
      (if x \<in> set ys then Some (filter (\<lambda>i. ys ! i = x) [0..<length ys]) else None)" for ys x
    by (simp add: posting_index_document fresh)
  have a: "posting (index_document idx u [''a'', ''b'', ''a'']) ''a'' u = Some [0, 2]"
    unfolding general by simp
  have b: "posting (index_document idx u [''a'', ''b'', ''a'']) ''b'' u = Some [1]"
    unfolding general by simp
  show ?thesis
    using general [of ts t] positions_strictly_increasing [of ts t] a b by simp
qed

theorem C1_postings_of_fresh_url_witness:
  "(\<forall>t. posting [''a'' \<mapsto> [''https://ex.com/v'' \<mapsto> [5]]] t ''https://ex.com/u'' = None)
   \<and> posting (index_document [''a'' \<mapsto> [''https://ex.com/v'' \<mapsto> [5]]] ''https://ex.com/u''
                 [''a'', ''b'', ''a'']) ''a'' ''https://ex.com/u'' = Some [0, 2]
   \<and> posting (index_document [''a'' \<mapsto> [''https://ex.com/v'' \<mapsto> [5]]] ''https://ex.com/u''
                 [''a'', ''b'', ''a'']) ''b'' ''https://ex.com/u'' = Some [1]"
proof -
  have h: "\<forall>t. posting [''a'' \<mapsto> [''https://ex.com/v'' \<mapsto> [5]]] t ''https://ex.com/u'' = None"
    by (simp add: posting_def)
  show ?thesis
    using h C1_postings_of_fresh_url [OF h, of "[]" "''a''"] by simp
qed

section \<open>Claims about the extractors\<close>

lemma fold_le_attr:
  "fold le_attr attrs links =
     links @ [v. (k, Some v) \<leftarrow> attrs, lower k = ''href'' \<and> v \<noteq> []]"
proof (induction attrs arbitrary: links)
  case Nil
  then show ?case by simp
next
  case (Cons kv attrs)
  obtain k v where kv: "kv = (k, v)" by (cases kv)
  show ?case
    unfolding kv using Cons.IH [of "le_attr (k, v) links"]
    by (cases v) (simp_all add: le_attr_def)
qed

text \<open>
  C7. The Text Extractor applied to the document
  \<^verbatim>\<open><html><head><style>x</style></head><body>Hello <script>y()</script> World</body></html>\<close>
  gives a text whose tokens are exactly hello and world: the tag stream of the document
  is the one written out below, the extractor keeps the two chunks outside the script,
  and what stands under head, style and script is left out. A piece of text is appended
  to the chunks only when the extractor is inside body and not skipping; tags never add
  a chunk.
\<close>

theorem C7_text_extractor_example:
  "html_events ''<html><head><style>x</style></head><body>Hello <script>y()</script> World</body></html>''
     = [StartTag ''html'' [], StartTag ''head'' [], StartTag ''style'' [], Data ''x'',
        EndTag ''style'', EndTag ''head'', StartTag ''body'' [], Data ''Hello '',
        StartTag ''script'' [], Data ''y()'', EndTag ''script'', Data '' World'',
        EndTag ''body'', EndTag ''html'']
   \<and> chunks (te_feed (html_events
        ''<html><head><style>x</style></head><body>Hello <script>y()</script> World</body></html>''))
     = [''Hello '', '' World'']
   \<and> tokenize (te_text (te_feed (html_events
        ''<html><head><style>x</style></head><body>Hello <script>y()</script> World</body></html>'')))
     = [''hello'', ''world'']
   \<and> chunks (te_event (Data d) te)
     = (if in_body te \<and> \<not> skip te then chunks te @ [d] else chunks te)
   \<and> chunks (te_event (StartTag tag attrs) te) = chunks te
   \<and> chunks (te_event (EndTag tag) te) = chunks te"
proof -
  have stream: "html_events ''<html><head><style>x</style></head><body>Hello <script>y()</script> World</body></html>''
     = [StartTag ''html'' [], StartTag ''head'' [], StartTag ''style'' [], Data ''x'',
        EndTag ''style'', EndTag ''head'', StartTag ''body'' [], Data ''Hello '',
        StartTag ''script'' [], Data ''y()'', EndTag ''script'', Data '' World'',
        EndTag ''body'', EndTag ''html'']"
    by code_simp
  have kept: "chunks (te_feed (html_events
        ''<html><head><style>x</style></head><body>Hello <script>y()</script> World</body></html>''))
     = [''Hello '', '' World'']"
    by code_simp
  have toks: "tokenize (te_text (te_feed (html_events
        ''<html><head><style>x</style></head><body>Hello <script>y()</script> World</body></html>'')))
     = [''hello'', ''world'']"
    by code_simp
  have data: "chunks (te_event (Data d) te)
     = (if in_body te \<and> \<not> skip te then chunks te @ [d] else chunks te)"
    by (simp add: te_handle_data_def)
  have start: "chunks (te_event (StartTag tag attrs) te) = chunks te"
    by (simp add: te_handle_starttag_def Let_def)
  have stop: "chunks (te_event (EndTag tag) te) = chunks te"
    by (simp add: te_handle_endtag_def Let_def)
  from stream kept toks data start stop show ?thesis
    by (intro conjI)
qed

text \<open>
  C5, as the spec has it: an anchor tag with more than one href attribute makes the Link
  Extractor emit exactly one value, that of the first href. The loop over the attributes
  of lines 79-81 has no \<^verbatim>\<open>break\<close>: for \<^verbatim>\<open><a href=x href=y>\<close> it emits x and then y.
\<close>

theorem C5_duplicate_href_counterexample:
  "le_handle_starttag ''a'' [(''href'', Some ''x''), (''href'', Some ''y'')] [] = [''x'', ''y'']
   \<and> html_events ''<a href=x href=y>t</a>''
       = [StartTag ''a'' [(''href'', Some ''x''), (''href'', Some ''y'')], Data ''t'', EndTag ''a'']
   \<and> le_feed (html_events ''<a href=x href=y>t</a>'') = [''x'', ''y'']"
  by code_simp

text \<open>
  C5, amended: for every anchor tag the Link Extractor emits, in the order of the
  attributes, the value of every attribute whose name is href in any mix of upper and
  lower case and whose value is present and not empty; a tag with two such attributes
  emits both values. Other tags emit nothing. For \<^verbatim>\<open><A HREF=x id href=y>\<close> the
  links are x and y, and an href with the empty value or with no value adds none.
\<close>

theorem C5_every_nonempty_href:
  "le_handle_starttag tag attrs links =
     (if lower tag = ''a''
      then links @ [v. (k, Some v) \<leftarrow> attrs, lower k = ''href'' \<and> v \<noteq> []]
      else links)
   \<and> le_feed (html_events ''<A HREF=x id href=y>t</a>'') = [''x'', ''y'']
   \<and> le_handle_starttag ''A''
         [(''HREF'', Some ''x''), (''href'', Some []), (''href'', None), (''Href'', Some ''y'')] []
       = [''x'', ''y'']"
proof -
  have "le_feed (html_events ''<A HREF=x id href=y>t</a>'') = [''x'', ''y'']"
    by code_simp
  moreover have "le_handle_starttag ''A''
         [(''HREF'', Some ''x''), (''href'', Some []), (''href'', None), (''Href'', Some ''y'')] []
       = [''x'', ''y'']"
    by code_simp
  ultimately show ?thesis
    by (simp add: le_handle_starttag_def fold_le_attr)
qed

section \<open>Claims about the scope of the crawl\<close>

lemma rfind_last: "s \<noteq> [] \<Longrightarrow> last s = c \<Longrightarrow> rfind c s = int (length s) - 1"
proof -
  assume a: "s \<noteq> []" "last s = c"
  then obtain bs where "s = bs @ [c]"
    by (metis append_butlast_last_id)
  then show ?thesis
    by (simp add: rfind_def)
qed

lemma rfind_less_length: "rfind c s < int (length s)"
  by (simp add: rfind_def)

lemma splitext_directory: "endswith p CHR ''/'' \<Longrightarrow> snd (splitext p) = []"
proof -
  assume "endswith p CHR ''/''"
  then have "rfind CHR ''/'' p = int (length p) - 1"
    by (simp add: endswith_def rfind_last)
  moreover have "rfind CHR ''.'' p < int (length p)"
    by (rule rfind_less_length)
  ultimately have "\<not> rfind CHR ''.'' p > rfind CHR ''/'' p"
    by simp
  then show ?thesis
    by (simp add: splitext_def Let_def)
qed

lemma is_likely_html_prefixed_eq: "is_likely_html_prefixed u = is_likely_html u"
  by (simp add: is_likely_html_prefixed_def is_likely_html_def Let_def)

lemma rsplit_head_append:
  assumes "c \<notin> set seg"
  shows "rsplit_head c (pre @ c # seg) = pre"
proof -
  from assms have "dropWhile (\<lambda>x. x \<noteq> c) (rev seg) = []"
    by auto
  then have "dropWhile (\<lambda>x. x \<noteq> c) (rev (pre @ c # seg)) = c # rev pre"
    by (simp add: dropWhile_append3)
  then show ?thesis
    by (simp add: rsplit_head_def)
qed

text \<open>
  C8. \<^verbatim>\<open>is_likely_html\<close> is true exactly for the URLs whose path has the empty
  extension, \<^verbatim>\<open>.html\<close> or \<^verbatim>\<open>.htm\<close>, and false for every other extension; a path
  that ends in a slash has the empty extension and is accepted. It is true for
  \<^verbatim>\<open>https://ex.com/dir/\<close>, \<^verbatim>\<open>https://ex.com/page.htm\<close> and \<^verbatim>\<open>https://ex.com/page\<close>,
  and false for \<^verbatim>\<open>https://ex.com/file.pdf\<close>.
\<close>

theorem C8_is_likely_html:
  "is_likely_html u = (snd (splitext (path (urlparse u))) \<in> {'''', ''.html'', ''.htm''})
   \<and> (endswith (path (urlparse u)) CHR ''/'' \<longrightarrow> is_likely_html u)
   \<and> is_likely_html ''https://ex.com/dir/''
   \<and> is_likely_html ''https://ex.com/page.htm''
   \<and> is_likely_html ''https://ex.com/page''
   \<and> \<not> is_likely_html ''https://ex.com/file.pdf''"
proof -
  have slash: "endswith (path (urlparse u)) CHR ''/'' \<Longrightarrow> is_likely_html u"
    by (simp add: is_likely_html_def Let_def)
  have ext: "is_likely_html u = (snd (splitext (path (urlparse u))) \<in> {'''', ''.html'', ''.htm''})"
    using splitext_directory [of "path (urlparse u)"]
    by (auto simp: is_likely_html_def Let_def)
  have e1: "is_likely_html ''https://ex.com/dir/''" by code_simp
  have e2: "is_likely_html ''https://ex.com/page.htm''" by code_simp
  have e3: "is_likely_html ''https://ex.com/page''" by code_simp
  have e4: "\<not> is_likely_html ''https://ex.com/file.pdf''" by code_simp
  from ext slash e1 e2 e3 e4 show ?thesis by blast
qed

theorem C8_is_likely_html_witness:
  "endswith (path (urlparse ''https://ex.com/a.b/'')) CHR ''/''
   \<and> is_likely_html ''https://ex.com/a.b/''
   \<and> snd (splitext (path (urlparse ''https://ex.com/a.b/''))) = ''''"
proof -
  have h: "endswith (path (urlparse ''https://ex.com/a.b/'')) CHR ''/''"
    by code_simp
  have "snd (splitext (path (urlparse ''https://ex.com/a.b/''))) = ''''"
    by code_simp
  with h C8_is_likely_html [of "''https://ex.com/a.b/''"] show ?thesis
    by blast
qed

text \<open>
  C9. In the prefix-scoped script the prefix directory of a seed path that does not end
  in a slash is what stands before its last slash, followed by a slash; a path that ends
  in a slash is its own prefix. For the seed \<^verbatim>\<open>https://ex.com/html/sp/sp50.html\<close> the
  prefix is \<^verbatim>\<open>/html/sp/\<close>. The loop over the links appends to the queue only links
  whose path starts with the prefix: of the two links \<^verbatim>\<open>/html/other/x.html\<close> and
  \<^verbatim>\<open>/html/sp/x.html\<close> on the seed's host, the first is left out and the second is
  enqueued.
\<close>

theorem C9_prefix_scope:
  "(seg \<noteq> [] \<and> CHR ''/'' \<notin> set seg \<longrightarrow> prefix_dir (pre @ ''/'' @ seg) = pre @ ''/'')
   \<and> (endswith p CHR ''/'' \<longrightarrow> prefix_dir p = p)
   \<and> PREFIX_DIR ''https://ex.com/html/sp/sp50.html'' = ''/html/sp/''
   \<and> (enqueue_links_prefixed e domain pfx u sn hrefs q = (q', ok) \<longrightarrow>
        (\<exists>added. q' = q @ added
           \<and> (\<forall>l \<in> set added. startswith (path (urlparse l)) pfx \<and> link_wanted_prefixed domain pfx sn l)))
   \<and> \<not> link_wanted_prefixed ''ex.com'' ''/html/sp/'' {''https://ex.com/html/sp/sp50.html''}
         ''https://ex.com/html/other/x.html''
   \<and> link_wanted_prefixed ''ex.com'' ''/html/sp/'' {''https://ex.com/html/sp/sp50.html''}
         ''https://ex.com/html/sp/x.html''
   \<and> enqueue_links_prefixed site (DOMAIN ''https://ex.com/html/sp/sp50.html'')
         (PREFIX_DIR ''https://ex.com/html/sp/sp50.html'') ''https://ex.com/html/sp/sp50.html''
         {''https://ex.com/html/sp/sp50.html''}
         [''https://ex.com/html/other/x.html'', ''https://ex.com/html/sp/x.html''] []
       = ([''https://ex.com/html/sp/x.html''], True)"
proof -
  have last_slash: "seg \<noteq> [] \<and> CHR ''/'' \<notin> set seg \<longrightarrow> prefix_dir (pre @ ''/'' @ seg) = pre @ ''/''"
  proof
    assume a: "seg \<noteq> [] \<and> CHR ''/'' \<notin> set seg"
    then have "last seg \<noteq> CHR ''/''"
      using last_in_set [of seg] by metis
    with a have "\<not> endswith (pre @ ''/'' @ seg) CHR ''/''"
      by (simp add: endswith_def)
    moreover from a have "rsplit_head CHR ''/'' (pre @ ''/'' @ seg) = pre"
      using rsplit_head_append [of "CHR ''/''" seg pre] by simp
    ultimately show "prefix_dir (pre @ ''/'' @ seg) = pre @ ''/''"
      by (simp add: prefix_dir_def)
  qed
  have own: "endswith p CHR ''/'' \<longrightarrow> prefix_dir p = p"
    by (simp add: prefix_dir_def)
  have seed: "PREFIX_DIR ''https://ex.com/html/sp/sp50.html'' = ''/html/sp/''"
    by code_simp
  have loop: "enqueue_links_prefixed e domain pfx u sn hrefs q = (q', ok) \<Longrightarrow>
        \<exists>added. q' = q @ added
           \<and> (\<forall>l \<in> set added. startswith (path (urlparse l)) pfx \<and> link_wanted_prefixed domain pfx sn l)"
  proof (induction hrefs arbitrary: q)
    case Nil
    then show ?case by simp
  next
    case (Cons href hrefs)
    show ?case
    proof (cases "urljoin e u (takeWhile (\<lambda>c. c \<noteq> CHR ''#'') href)")
      case None
      with Cons.prems show ?thesis by simp
    next
      case (Some abs_link)
      show ?thesis
      proof (cases "link_wanted_prefixed domain pfx sn abs_link")
        case True
        with Some Cons.prems
        have "enqueue_links_prefixed e domain pfx u sn hrefs (q @ [abs_link]) = (q', ok)"
          by simp
        from Cons.IH [OF this] obtain added where
          "q' = (q @ [abs_link]) @ added"
          "\<forall>l \<in> set added. startswith (path (urlparse l)) pfx \<and> link_wanted_prefixed domain pfx sn l"
          by blast
        moreover from True have "startswith (path (urlparse abs_link)) pfx"
          by (simp add: link_wanted_prefixed_def Let_def)
        ultimately have "q' = q @ (abs_link # added)
          \<and> (\<forall>l \<in> set (abs_link # added).
                startswith (path (urlparse l)) pfx \<and> link_wanted_prefixed domain pfx sn l)"
          using True by simp
        then show ?thesis by blast
      next
        case False
        with Some Cons.prems
        have "enqueue_links_prefixed e domain pfx u sn hrefs q = (q', ok)"
          by simp
        from Cons.IH [OF this] show ?thesis .
      qed
    qed
  qed
  have out: "\<not> link_wanted_prefixed ''ex.com'' ''/html/sp/'' {''https://ex.com/html/sp/sp50.html''}
         ''https://ex.com/html/other/x.html''"
    by code_simp
  have inside: "link_wanted_prefixed ''ex.com'' ''/html/sp/'' {''https://ex.com/html/sp/sp50.html''}
         ''https://ex.com/html/sp/x.html''"
    by code_simp
  have both: "enqueue_links_prefixed site (DOMAIN ''https://ex.com/html/sp/sp50.html'')
         (PREFIX_DIR ''https://ex.com/html/sp/sp50.html'') ''https://ex.com/html/sp/sp50.html''
         {''https://ex.com/html/sp/sp50.html''}
         [''https://ex.com/html/other/x.html'', ''https://ex.com/html/sp/x.html''] []
       = ([''https://ex.com/html/sp/x.html''], True)"
    by code_simp
  from last_slash own seed loop out inside both show ?thesis
    by blast
qed

theorem C9_prefix_scope_witness:
  "''sp50.html'' \<noteq> [] \<and> CHR ''/'' \<notin> set ''sp50.html''
   \<and> prefix_dir (''/html/sp'' @ ''/'' @ ''sp50.html'') = ''/html/sp'' @ ''/''
   \<and> endswith ''/html/sp/'' CHR ''/'' \<and> prefix_dir ''/html/sp/'' = ''/html/sp/''
   \<and> enqueue_links_prefixed site ''ex.com'' ''/html/sp/'' ''https://ex.com/html/sp/sp50.html''
         {''https://ex.com/html/sp/sp50.html''}
         [''https://ex.com/html/other/x.html'', ''https://ex.com/html/sp/x.html''] []
       = ([''https://ex.com/html/sp/x.html''], True)
   \<and> (\<exists>added. [''https://ex.com/html/sp/x.html''] = [] @ added
         \<and> (\<forall>l \<in> set added. startswith (path (urlparse l)) ''/html/sp/''
               \<and> link_wanted_prefixed ''ex.com'' ''/html/sp/'' {''https://ex.com/html/sp/sp50.html''} l))"
proof -
  have h1: "''sp50.html'' \<noteq> [] \<and> CHR ''/'' \<notin> set ''sp50.html''"
    by simp
  have h2: "endswith ''/html/sp/'' CHR ''/''"
    by (simp add: endswith_def)
  have h3: "enqueue_links_prefixed site ''ex.com'' ''/html/sp/'' ''https://ex.com/html/sp/sp50.html''
         {''https://ex.com/html/sp/sp50.html''}
         [''https://ex.com/html/other/x.html'', ''https://ex.com/html/sp/x.html''] []
       = ([''https://ex.com/html/sp/x.html''], True)"
    by code_simp
  from h1 h2 h3
    C9_prefix_scope [of "''sp50.html''" "''/html/sp''" "''/html/sp/''" site "''ex.com''"
      "''/html/sp/''" "''https://ex.com/html/sp/sp50.html''" "{''https://ex.com/html/sp/sp50.html''}"
      "[''https://ex.com/html/other/x.html'', ''https://ex.com/html/sp/x.html'']" "[]"
      "[''https://ex.com/html/sp/x.html'']" True]
  show ?thesis
    by blast
qed

section \<open>Claims about the crawl\<close>

subsection \<open>What one round changes\<close>

lemma seen_process_document: "seen (process_document e domain u html s) = seen s"
  by (simp add: process_document_def Let_def split: option.splits prod.splits bool.splits)

lemma fetched_process_document: "fetched (process_document e domain u html s) = fetched s"
  by (simp add: process_document_def Let_def split: option.splits prod.splits bool.splits)

lemma seen_step:
  "seen (step e domain s) = (case to_crawl s of [] \<Rightarrow> seen s | v # rest \<Rightarrow> insert v (seen s))"
  by (auto simp: step_def Let_def seen_process_document split: list.splits option.splits)

lemma fetched_step:
  "fetched (step e domain s) =
     (case to_crawl s of
        [] \<Rightarrow> fetched s
      | v # rest \<Rightarrow> if v \<in> seen s \<or> \<not> is_likely_html v then fetched s else fetched s @ [v])"
  by (auto simp: step_def Let_def fetched_process_document split: list.splits option.splits)


lemma step_processes:
  assumes "to_crawl s = u # rest" and "u \<notin> seen s" and "is_likely_html u"
    and "fetch e u = Some r"
    and "contains (case content_type_header r of None \<Rightarrow> [] | Some v \<Rightarrow> v) ''text/html''"
  shows "step e domain s =
           process_document e domain u (body_text r)
             (s\<lparr>to_crawl := rest, seen := insert u (seen s), fetched := fetched s @ [u]\<rparr>)"
  using assms by (simp add: step_def Let_def)

subsection \<open>Every URL is fetched at most once\<close>

lemma step_keeps_fetch_invariant:
  assumes "distinct (fetched s)" and "set (fetched s) \<subseteq> seen s"
  shows "distinct (fetched (step e domain s)) \<and> set (fetched (step e domain s)) \<subseteq> seen (step e domain s)"
  using assms by (auto simp: fetched_step seen_step split: list.splits)

lemma run_keeps_fetch_invariant:
  "distinct (fetched s) \<Longrightarrow> set (fetched s) \<subseteq> seen s \<Longrightarrow>
   distinct (fetched (run e domain n s)) \<and> set (fetched (run e domain n s)) \<subseteq> seen (run e domain n s)"
proof (induction n arbitrary: s)
  case 0
  then show ?case by simp
next
  case (Suc n)
  from step_keeps_fetch_invariant [OF Suc.prems, of e domain]
  show ?case using Suc.IH [of "step e domain s"] by simp
qed

lemma step_never_refetches:
  "u \<in> seen s \<Longrightarrow>
   u \<in> seen (step e domain s) \<and> count_list (fetched (step e domain s)) u = count_list (fetched s) u"
  by (auto simp: fetched_step seen_step split: list.splits)

lemma run_never_refetches:
  "u \<in> seen s \<Longrightarrow>
   u \<in> seen (run e domain n s) \<and> count_list (fetched (run e domain n s)) u = count_list (fetched s) u"
proof (induction n arbitrary: s)
  case 0
  then show ?case by simp
next
  case (Suc n)
  from step_never_refetches [OF Suc.prems, of e domain]
  show ?case using Suc.IH [of "step e domain s"] by simp
qed

text \<open>
  What holds of the strings as they are queued: in a run from any seed, after any number
  of rounds, no string has been handed to \<^verbatim>\<open>requests.get\<close> twice, every fetched URL
  is in the seen set, and a URL in the seen set stays there and is not fetched again.
\<close>

lemma fetch_log_distinct:
  "distinct (fetched (run e domain n (init start_url)))
   \<and> set (fetched (run e domain n (init start_url))) \<subseteq> seen (run e domain n (init start_url))"
proof -
  have "distinct (fetched (init start_url))" "set (fetched (init start_url)) \<subseteq> seen (init start_url)"
    by (simp_all add: init_def)
  from run_keeps_fetch_invariant [OF this, of e domain n]
  show ?thesis .
qed

text \<open>
  C4. Two URLs that are equal after fragment stripping and resolution are fetched at
  most once between them. Line 141 strips the fragment of every discovered link, but
  line 94 queues the seed as it is given. With the seed \<^verbatim>\<open>https://ex.com/#top\<close> and a
  home page that links to \<^verbatim>\<open>https://ex.com/\<close>, the link is not in the seen set, which
  holds the seed with its fragment; it is enqueued, and the second round fetches the
  home page again and indexes it under a second key.
\<close>

theorem C4_seed_fragment_fetched_twice:
  "takeWhile (\<lambda>c. c \<noteq> CHR ''#'') ''https://ex.com/#top'' = ''https://ex.com/''
   \<and> takeWhile (\<lambda>c. c \<noteq> CHR ''#'') ''https://ex.com/'' = ''https://ex.com/''
   \<and> to_crawl (run frag_site ''ex.com'' 1 (init ''https://ex.com/#top'')) = [''https://ex.com/'']
   \<and> seen (run frag_site ''ex.com'' 1 (init ''https://ex.com/#top'')) = {''https://ex.com/#top''}
   \<and> fetched (run frag_site ''ex.com'' 2 (init ''https://ex.com/#top''))
       = [''https://ex.com/#top'', ''https://ex.com/'']
   \<and> posting (index (run frag_site ''ex.com'' 2 (init ''https://ex.com/#top'')))
         ''home'' ''https://ex.com/#top'' = Some [0, 1]
   \<and> posting (index (run frag_site ''ex.com'' 2 (init ''https://ex.com/#top'')))
         ''home'' ''https://ex.com/'' = Some [0, 1]
   \<and> page_count (run frag_site ''ex.com'' 2 (init ''https://ex.com/#top'')) = 2"
  by code_simp

subsection \<open>Postings are written once\<close>











subsection \<open>The frontier\<close>

text \<open>
  C3, as the spec has it: enqueueing a URL that is not in the seen set appends it to the
  queue and marks it seen at once, so that a URL discovered twice before it is visited
  is in the queue at most once. The loop of lines 140-146 only appends. After the home
  page of the example site, which links twice to the page a, the queue holds that URL
  twice and the seen set does not hold it.
\<close>

theorem C3_discovered_twice_counterexample:
  "le_feed (html_events (body_text (the (site_pages ''https://ex.com/''))))
     = [''https://ex.com/a.html'', ''https://ex.com/a.html#top'', ''https://ex.com/c'',
        ''https://ex.com/d.html'', ''https://ex.com/bad.html'']
   \<and> to_crawl (step site ''ex.com'' (init ''https://ex.com/''))
     = [''https://ex.com/a.html'', ''https://ex.com/a.html'', ''https://ex.com/c'',
        ''https://ex.com/d.html'', ''https://ex.com/bad.html'']
   \<and> count_list (to_crawl (step site ''ex.com'' (init ''https://ex.com/''))) ''https://ex.com/a.html'' = 2
   \<and> ''https://ex.com/a.html'' \<notin> seen (step site ''ex.com'' (init ''https://ex.com/''))"
  by code_simp

text \<open>
  C3, amended: enqueueing a discovered URL is a no-op when the URL is already in the
  seen set; a URL on the crawl's domain that looks like HTML and is not in the seen set
  is appended to the FIFO queue, and the seen set is left as it is. A URL is marked seen
  when it is dequeued: a round adds the dequeued URL to the seen set and nothing else.
  A URL that is dequeued while it is in the seen set is dropped, and nothing else
  changes. So a URL discovered twice before it is visited can be in the queue twice, and
  the duplicates are removed at dequeue time.
\<close>

theorem C3_enqueue_and_dedup:
  "(urljoin e u (takeWhile (\<lambda>c. c \<noteq> CHR ''#'') href) = Some abs_link \<and> abs_link \<in> sn
      \<longrightarrow> enqueue_links e domain u sn [href] q = (q, True))
   \<and> (urljoin e u (takeWhile (\<lambda>c. c \<noteq> CHR ''#'') href) = Some abs_link
        \<and> netloc (urlparse abs_link) = domain \<and> abs_link \<notin> sn \<and> is_likely_html abs_link
      \<longrightarrow> enqueue_links e domain u sn [href] q = (q @ [abs_link], True))
   \<and> seen (step e domain s) = (case to_crawl s of [] \<Rightarrow> seen s | v # rest \<Rightarrow> insert v (seen s))
   \<and> (to_crawl s = v # rest \<and> v \<in> seen s \<longrightarrow> step e domain s = s\<lparr>to_crawl := rest\<rparr>)"
proof -
  have noop: "urljoin e u (takeWhile (\<lambda>c. c \<noteq> CHR ''#'') href) = Some abs_link \<and> abs_link \<in> sn
      \<longrightarrow> enqueue_links e domain u sn [href] q = (q, True)"
    by (simp add: link_wanted_def)
  have append: "urljoin e u (takeWhile (\<lambda>c. c \<noteq> CHR ''#'') href) = Some abs_link
        \<and> netloc (urlparse abs_link) = domain \<and> abs_link \<notin> sn \<and> is_likely_html abs_link
      \<longrightarrow> enqueue_links e domain u sn [href] q = (q @ [abs_link], True)"
    by (simp add: link_wanted_def)
  have dropped: "to_crawl s = v # rest \<and> v \<in> seen s \<longrightarrow> step e domain s = s\<lparr>to_crawl := rest\<rparr>"
    by (simp add: step_def Let_def)
  from noop append seen_step [of e domain s] dropped show ?thesis
    by (intro conjI)
qed

theorem C3_enqueue_and_dedup_witness:
  "urljoin site ''https://ex.com/a.html'' (takeWhile (\<lambda>c. c \<noteq> CHR ''#'') ''https://ex.com/#top'')
     = Some ''https://ex.com/''
   \<and> ''https://ex.com/'' \<in> {''https://ex.com/''}
   \<and> enqueue_links site ''ex.com'' ''https://ex.com/a.html'' {''https://ex.com/''}
        [''https://ex.com/#top''] [''https://ex.com/c''] = ([''https://ex.com/c''], True)
   \<and> urljoin site ''https://ex.com/'' (takeWhile (\<lambda>c. c \<noteq> CHR ''#'') ''https://ex.com/a.html#top'')
     = Some ''https://ex.com/a.html''
   \<and> netloc (urlparse ''https://ex.com/a.html'') = ''ex.com''
   \<and> ''https://ex.com/a.html'' \<notin> {''https://ex.com/''}
   \<and> is_likely_html ''https://ex.com/a.html''
   \<and> enqueue_links site ''ex.com'' ''https://ex.com/'' {''https://ex.com/''}
        [''https://ex.com/a.html#top''] [''https://ex.com/a.html'']
      = ([''https://ex.com/a.html''] @ [''https://ex.com/a.html''], True)
   \<and> to_crawl (run site ''ex.com'' 2 (init ''https://ex.com/''))
      = ''https://ex.com/a.html'' # [''https://ex.com/c'', ''https://ex.com/d.html'', ''https://ex.com/bad.html'']
   \<and> ''https://ex.com/a.html'' \<in> seen (run site ''ex.com'' 2 (init ''https://ex.com/''))
   \<and> step site ''ex.com'' (run site ''ex.com'' 2 (init ''https://ex.com/''))
      = (run site ''ex.com'' 2 (init ''https://ex.com/''))
          \<lparr>to_crawl := [''https://ex.com/c'', ''https://ex.com/d.html'', ''https://ex.com/bad.html'']\<rparr>"
proof -
  have a1: "urljoin site ''https://ex.com/a.html'' (takeWhile (\<lambda>c. c \<noteq> CHR ''#'') ''https://ex.com/#top'')
     = Some ''https://ex.com/''"
    by code_simp
  have a2: "''https://ex.com/'' \<in> {''https://ex.com/''}"
    by simp
  have b1: "urljoin site ''https://ex.com/'' (takeWhile (\<lambda>c. c \<noteq> CHR ''#'') ''https://ex.com/a.html#top'')
     = Some ''https://ex.com/a.html''"
    by code_simp
  have b2: "netloc (urlparse ''https://ex.com/a.html'') = ''ex.com''"
    by code_simp
  have b3: "''https://ex.com/a.html'' \<notin> {''https://ex.com/''}"
    by simp
  have b4: "is_likely_html ''https://ex.com/a.html''"
    by code_simp
  have c1: "to_crawl (run site ''ex.com'' 2 (init ''https://ex.com/''))
      = ''https://ex.com/a.html'' # [''https://ex.com/c'', ''https://ex.com/d.html'', ''https://ex.com/bad.html'']"
    by code_simp
  have c2: "''https://ex.com/a.html'' \<in> seen (run site ''ex.com'' 2 (init ''https://ex.com/''))"
    by code_simp
  from a1 a2
    C3_enqueue_and_dedup [of site "''https://ex.com/a.html''" "''https://ex.com/#top''"
      "''https://ex.com/''" "{''https://ex.com/''}" "''ex.com''" "[''https://ex.com/c'']"]
  have r1: "enqueue_links site ''ex.com'' ''https://ex.com/a.html'' {''https://ex.com/''}
        [''https://ex.com/#top''] [''https://ex.com/c''] = ([''https://ex.com/c''], True)"
    by blast
  from b1 b2 b3 b4
    C3_enqueue_and_dedup [of site "''https://ex.com/''" "''https://ex.com/a.html#top''"
      "''https://ex.com/a.html''" "{''https://ex.com/''}" "''ex.com''" "[''https://ex.com/a.html'']"]
  have r2: "enqueue_links site ''ex.com'' ''https://ex.com/'' {''https://ex.com/''}
        [''https://ex.com/a.html#top''] [''https://ex.com/a.html'']
      = ([''https://ex.com/a.html''] @ [''https://ex.com/a.html''], True)"
    by blast
  from c1 c2
    C3_enqueue_and_dedup [where e = site and domain = "''ex.com''"
      and s = "run site ''ex.com'' 2 (init ''https://ex.com/'')"
      and v = "''https://ex.com/a.html''"
      and rest = "[''https://ex.com/c'', ''https://ex.com/d.html'', ''https://ex.com/bad.html'']"]
  have r3: "step site ''ex.com'' (run site ''ex.com'' 2 (init ''https://ex.com/''))
      = (run site ''ex.com'' 2 (init ''https://ex.com/''))
          \<lparr>to_crawl := [''https://ex.com/c'', ''https://ex.com/d.html'', ''https://ex.com/bad.html'']\<rparr>"
    by blast
  from a1 a2 b1 b2 b3 b4 c1 c2 r1 r2 r3 show ?thesis
    by (intro conjI)
qed

subsection \<open>Pages that are skipped or abandoned\<close>

text \<open>
  C2, as the spec has it: whenever the block that extracts and indexes a fetched
  document raises, the index and the queue are as they were before the document was
  processed. The block indexes the text first and resolves the links afterwards, so an
  error raised while the links are resolved comes too late for that. On the page bad of
  the example site the second link is \<^verbatim>\<open>http://[\<close>, on which \<^verbatim>\<open>urljoin\<close> raises:
  the loop over the links stops there, the exception is caught by line 153, the page
  counter is not incremented, and yet the page's words are in the index and its first
  link is in the queue.
\<close>

theorem C2_late_error_counterexample:
  "urljoin site ''https://ex.com/bad.html'' ''http://['' = None
   \<and> enqueue_links site ''ex.com'' ''https://ex.com/bad.html'' {''https://ex.com/bad.html''}
        (le_feed (html_events (body_text (the (site_pages ''https://ex.com/bad.html''))))) []
      = ([''https://ex.com/e.html''], False)
   \<and> posting (index (init ''https://ex.com/bad.html'')) ''oops'' ''https://ex.com/bad.html'' = None
   \<and> posting (index (step site ''ex.com'' (init ''https://ex.com/bad.html'')))
        ''oops'' ''https://ex.com/bad.html'' = Some [0]
   \<and> to_crawl (step site ''ex.com'' (init ''https://ex.com/bad.html'')) = [''https://ex.com/e.html'']
   \<and> page_count (step site ''ex.com'' (init ''https://ex.com/bad.html'')) = 0"
  by code_simp

text \<open>
  C2, amended: a fetched HTML document is abandoned without a trace when the parser
  raises on it, which happens in the first statement of the block: the index, the page
  counter and the flushes are as before, the queue is the rest of the queue with nothing
  enqueued, and the crawl goes on with the next URL. Once the parser has delivered the
  page, the document is indexed whatever follows: an error raised later in the block,
  while a link is resolved, is caught in the same way and the crawl goes on, but the
  document's postings stay in the index, the links appended before the error stay in the
  queue, and only the page counter is left as it was.
\<close>

theorem C2_abandoned_document:
  "to_crawl s = u # rest \<and> u \<notin> seen s \<and> is_likely_html u \<and> fetch e u = Some r
   \<and> contains (case content_type_header r of None \<Rightarrow> [] | Some v \<Rightarrow> v) ''text/html''
   \<longrightarrow>
     (feed e (body_text r) = None \<longrightarrow>
        step e domain s
          = s\<lparr>to_crawl := rest, seen := insert u (seen s), fetched := fetched s @ [u]\<rparr>)
     \<and> (\<forall>evs. feed e (body_text r) = Some evs \<longrightarrow>
          index (step e domain s) = index_document (index s) u (tokenize (te_text (te_feed evs)))
          \<and> to_crawl (step e domain s)
              = fst (enqueue_links e domain u (insert u (seen s)) (le_feed evs) rest)
          \<and> page_count (step e domain s)
              = (if snd (enqueue_links e domain u (insert u (seen s)) (le_feed evs) rest)
                 then page_count s + 1 else page_count s))"
proof (intro impI)
  assume a: "to_crawl s = u # rest \<and> u \<notin> seen s \<and> is_likely_html u \<and> fetch e u = Some r
   \<and> contains (case content_type_header r of None \<Rightarrow> [] | Some v \<Rightarrow> v) ''text/html''"
  define s2 where "s2 = s\<lparr>to_crawl := rest, seen := insert u (seen s), fetched := fetched s @ [u]\<rparr>"
  from a have st: "step e domain s = process_document e domain u (body_text r) s2"
    unfolding s2_def by (intro step_processes) simp_all
  have raised: "feed e (body_text r) = None \<longrightarrow> step e domain s = s2"
    by (simp add: st process_document_def)
  have parsed: "\<forall>evs. feed e (body_text r) = Some evs \<longrightarrow>
          index (step e domain s) = index_document (index s) u (tokenize (te_text (te_feed evs)))
          \<and> to_crawl (step e domain s)
              = fst (enqueue_links e domain u (insert u (seen s)) (le_feed evs) rest)
          \<and> page_count (step e domain s)
              = (if snd (enqueue_links e domain u (insert u (seen s)) (le_feed evs) rest)
                 then page_count s + 1 else page_count s)"
  proof (intro allI impI)
    fix evs
    assume f: "feed e (body_text r) = Some evs"
    obtain q ok where en: "enqueue_links e domain u (insert u (seen s)) (le_feed evs) rest = (q, ok)"
      by (cases "enqueue_links e domain u (insert u (seen s)) (le_feed evs) rest")
    show "index (step e domain s) = index_document (index s) u (tokenize (te_text (te_feed evs)))
          \<and> to_crawl (step e domain s)
              = fst (enqueue_links e domain u (insert u (seen s)) (le_feed evs) rest)
          \<and> page_count (step e domain s)
              = (if snd (enqueue_links e domain u (insert u (seen s)) (le_feed evs) rest)
                 then page_count s + 1 else page_count s)"
      unfolding st en
      by (cases ok) (simp_all add: process_document_def Let_def f s2_def en)
  qed
  from raised parsed
  show "(feed e (body_text r) = None \<longrightarrow>
        step e domain s
          = s\<lparr>to_crawl := rest, seen := insert u (seen s), fetched := fetched s @ [u]\<rparr>)
     \<and> (\<forall>evs. feed e (body_text r) = Some evs \<longrightarrow>
          index (step e domain s) = index_document (index s) u (tokenize (te_text (te_feed evs)))
          \<and> to_crawl (step e domain s)
              = fst (enqueue_links e domain u (insert u (seen s)) (le_feed evs) rest)
          \<and> page_count (step e domain s)
              = (if snd (enqueue_links e domain u (insert u (seen s)) (le_feed evs) rest)
                 then page_count s + 1 else page_count s))"
    unfolding s2_def by (intro conjI)
qed

theorem C2_abandoned_document_witness:
  "to_crawl (init ''https://ex.com/a.html'') = ''https://ex.com/a.html'' # []
   \<and> ''https://ex.com/a.html'' \<notin> seen (init ''https://ex.com/a.html'')
   \<and> is_likely_html ''https://ex.com/a.html''
   \<and> fetch (site\<lparr>feed := (\<lambda>html. None)\<rparr>) ''https://ex.com/a.html''
       = Some \<lparr>content_type_header = Some ''text/html'', body_text = ''<body>Page a</body>''\<rparr>
   \<and> contains ''text/html'' ''text/html''
   \<and> feed (site\<lparr>feed := (\<lambda>html. None)\<rparr>) ''<body>Page a</body>'' = None
   \<and> step (site\<lparr>feed := (\<lambda>html. None)\<rparr>) ''ex.com'' (init ''https://ex.com/a.html'')
       = (init ''https://ex.com/a.html'')
           \<lparr>to_crawl := [], seen := {''https://ex.com/a.html''}, fetched := [''https://ex.com/a.html'']\<rparr>
   \<and> feed site ''<body>Page a</body>'' = Some [StartTag ''body'' [], Data ''Page a'', EndTag ''body'']
   \<and> index (step site ''ex.com'' (init ''https://ex.com/a.html''))
       = index_document Map.empty ''https://ex.com/a.html'' [''page'', ''a'']
   \<and> page_count (step site ''ex.com'' (init ''https://ex.com/a.html'')) = 1"
proof -
  let ?a = "''https://ex.com/a.html''"
  let ?r = "\<lparr>content_type_header = Some ''text/html'', body_text = ''<body>Page a</body>''\<rparr>"
  let ?quiet = "site\<lparr>feed := (\<lambda>html. None)\<rparr>"
  let ?evs = "[StartTag ''body'' [], Data ''Page a'', EndTag ''body'']"
  have h1: "to_crawl (init ?a) = ?a # []" by (simp add: init_def)
  have h2: "?a \<notin> seen (init ?a)" by (simp add: init_def)
  have h3: "is_likely_html ?a" by code_simp
  have h4: "fetch ?quiet ?a = Some ?r" by (simp add: site_def site_pages_def)
  have h4': "fetch site ?a = Some ?r" by (simp add: site_def site_pages_def)
  have h5: "contains ''text/html'' ''text/html''" by code_simp
  have h6: "feed ?quiet ''<body>Page a</body>'' = None" by (simp add: site_def)
  have ev: "html_events ''<body>Page a</body>'' = ?evs" by code_simp
  have h7: "feed site ''<body>Page a</body>'' = Some ?evs" by (simp add: site_def ev)
  have tk: "tokenize (te_text (te_feed ?evs)) = [''page'', ''a'']" by code_simp
  have en: "enqueue_links site ''ex.com'' ?a {?a} (le_feed ?evs) [] = ([], True)"
    by code_simp
  from h1 h2 h3 h4 h5 h6
    C2_abandoned_document [of "init ?a" ?a "[]" ?quiet ?r "''ex.com''"]
  have r1: "step ?quiet ''ex.com'' (init ?a)
       = (init ?a)\<lparr>to_crawl := [], seen := {?a}, fetched := [?a]\<rparr>"
    by (simp add: init_def)
  from h1 h2 h3 h4' h5 h7
    C2_abandoned_document [of "init ?a" ?a "[]" site ?r "''ex.com''"]
  have r2: "index (step site ''ex.com'' (init ?a)) = index_document Map.empty ?a [''page'', ''a'']
            \<and> page_count (step site ''ex.com'' (init ?a)) = 1"
    by (simp add: tk en init_def)
  from h1 h2 h3 h4 h5 h6 h7 r1 r2 show ?thesis
    by (intro conjI) simp_all
qed




end
